theory Spec2Isabelle
  imports Main "HOL-Library.Word"
begin

section \<open>C strings and process outcomes\<close>

text \<open>
  The program is C. A buffer is a list of bytes (\<open>char\<close>); a C string is the prefix of a
  buffer up to its first NUL byte. Every way a C function can stop is a value of
  \<open>result\<close>: it returns (\<open>Ok\<close>), it calls \<open>err\<close>/\<open>errx\<close> and the process exits with a
  diagnostic (\<open>Fatal\<close> with the message as formatted, without the program-name prefix that
  \<open>errx\<close> prints first), or it does something C leaves undefined (\<open>Crash\<close>).
\<close>

datatype fault = NullPointer | OutOfBounds | IntOverflow

datatype 'a result = Ok 'a | Fatal string | Crash fault

definition NUL :: char where
  "NUL = CHR 0x00"

definition cstr :: "string \<Rightarrow> string" where
  "cstr buf = takeWhile (\<lambda>c. c \<noteq> NUL) buf"

text \<open>\<open>strchr s c\<close> on the C string \<open>s\<close>: the offset of the first \<open>c\<close>, \<open>None\<close> for the null pointer.\<close>

fun strchr :: "string \<Rightarrow> char \<Rightarrow> nat option" where
  "strchr [] c = None"
| "strchr (x # xs) c = (if x = c then Some 0 else map_option Suc (strchr xs c))"

section \<open>sanitize_svn_date\<close>

text \<open>
  \<^verbatim>\<open>
  static char* sanitize_svn_date(char *date) {
      char *temp = temp;
      temp = strchr(date, 'T');
      *temp++ = ' ';
      temp = strchr(temp, '.');
      *temp = 'Z';
      *temp = 0;
      return temp;
  }
  \<close>
  The argument is the C string in the caller's buffer; the model returns the C string the
  buffer holds afterwards. Both stores go through the pointer \<open>strchr\<close> returned, unchecked.
\<close>

definition sanitize_svn_date :: "string \<Rightarrow> string result" where
  "sanitize_svn_date date =
     (case strchr date (CHR ''T'') of
        None \<Rightarrow> Crash NullPointer
      | Some i \<Rightarrow>
          (let date1 = date[i := CHR '' ''] in
           case strchr (drop (Suc i) date1) (CHR ''.'') of
             None \<Rightarrow> Crash NullPointer
           | Some j \<Rightarrow> Ok (take (Suc i + j) date1)))"

lemma strchr_append_notin:
  "c \<notin> set xs \<Longrightarrow> strchr (xs @ c # ys) c = Some (length xs)"
  by (induction xs) auto

text \<open>
  C9 (as amended). A date string with a \<open>T\<close> and, after the first \<open>T\<close>, a \<open>.\<close> is rewritten
  to the text before the \<open>T\<close>, a space, and the text between the \<open>T\<close> and the first
  following \<open>.\<close>; so \<open>YYYY-MM-DDTHH:MM:SS.<frac>Z\<close> becomes \<open>YYYY-MM-DD HH:MM:SS\<close>. The
  function validates nothing: no input makes it stop with a diagnostic.
\<close>

theorem sanitize_svn_date_rewrites:
  "(CHR ''T'' \<notin> set d \<longrightarrow> CHR ''.'' \<notin> set t \<longrightarrow>
      sanitize_svn_date (d @ ''T'' @ t @ ''.'' @ r) = Ok (d @ '' '' @ t)) \<and>
   (\<forall>msg. sanitize_svn_date date \<noteq> Fatal msg)"
proof (intro conjI impI allI)
  assume d: "CHR ''T'' \<notin> set d" and t: "CHR ''.'' \<notin> set t"
  have i: "strchr (d @ ''T'' @ t @ ''.'' @ r) (CHR ''T'') = Some (length d)"
    using strchr_append_notin [OF d] by simp
  have upd: "(d @ ''T'' @ t @ ''.'' @ r)[length d := CHR '' ''] = d @ '' '' @ t @ ''.'' @ r"
    by (simp add: list_update_append)
  have j: "strchr (t @ CHR ''.'' # r) (CHR ''.'') = Some (length t)"
    using strchr_append_notin [OF t] by simp
  show "sanitize_svn_date (d @ ''T'' @ t @ ''.'' @ r) = Ok (d @ '' '' @ t)"
    unfolding sanitize_svn_date_def i upd by (simp add: j)
next
  fix msg
  show "sanitize_svn_date date \<noteq> Fatal msg"
    by (simp add: sanitize_svn_date_def Let_def split: option.splits)
qed

theorem sanitize_svn_date_rewrites_witness:
  "sanitize_svn_date ''2020-11-10T09:23:51.711212Z'' = Ok ''2020-11-10 09:23:51''"
  using sanitize_svn_date_rewrites [of "''2020-11-10''" "''09:23:51''" "''711212Z''"]
  by simp

text \<open>
  C9 as stated fails: a date without a \<open>T\<close> is not rejected with a diagnostic; the store
  through the null pointer that \<open>strchr\<close> returned is undefined behaviour.
\<close>

theorem sanitize_svn_date_no_T_counterexample:
  "sanitize_svn_date ''2020-11-10 09:23:51'' = Crash NullPointer"
  by (simp add: sanitize_svn_date_def)

section \<open>Writing files: save_file\<close>


text \<open>
  The filesystem primitives are not part of the program. \<open>save_file\<close> is modelled over any
  implementation of them, given as a record: a primitive that can fail returns \<open>None\<close> and
  leaves the state as it was.
\<close>

record 'fs fsops =
  op_stat :: "'fs \<Rightarrow> string \<Rightarrow> bool"
  op_remove :: "'fs \<Rightarrow> string \<Rightarrow> 'fs option"
  op_symlink :: "'fs \<Rightarrow> string \<Rightarrow> string \<Rightarrow> 'fs option"
  op_open :: "'fs \<Rightarrow> string \<Rightarrow> bool \<Rightarrow> 'fs option"
  op_write :: "'fs \<Rightarrow> string \<Rightarrow> string \<Rightarrow> 'fs"
  op_rename :: "'fs \<Rightarrow> string \<Rightarrow> string \<Rightarrow> 'fs option"


text \<open>
  A small filesystem to run the model on: a flat map from path names to regular files
  (content and executable bit) and symbolic links.
\<close>

datatype node = Regular string bool | Symlink string

definition flat_open :: "(string \<rightharpoonup> node) \<Rightarrow> string \<Rightarrow> bool \<Rightarrow> (string \<rightharpoonup> node) option" where
  "flat_open fs p x =
     (case fs p of
        None \<Rightarrow> Some (fs(p \<mapsto> Regular [] x))
      | Some (Regular c m) \<Rightarrow> Some (fs(p \<mapsto> Regular [] m))
      | Some (Symlink t) \<Rightarrow> None)"

definition flat_write :: "(string \<rightharpoonup> node) \<Rightarrow> string \<Rightarrow> string \<Rightarrow> (string \<rightharpoonup> node)" where
  "flat_write fs p d =
     (case fs p of Some (Regular c m) \<Rightarrow> fs(p \<mapsto> Regular (c @ d) m) | _ \<Rightarrow> fs)"

definition flat_rename :: "(string \<rightharpoonup> node) \<Rightarrow> string \<Rightarrow> string \<Rightarrow> (string \<rightharpoonup> node) option" where
  "flat_rename fs a b = (case fs a of None \<Rightarrow> None | Some x \<Rightarrow> Some ((fs(a := None))(b \<mapsto> x)))"

definition flat_ops :: "(string \<rightharpoonup> node) fsops" where
  "flat_ops =
     \<lparr> op_stat = (\<lambda>fs p. fs p \<noteq> None),
       op_remove = (\<lambda>fs p. if fs p = None then None else Some (fs(p := None))),
       op_symlink = (\<lambda>fs t p. if fs p = None then Some (fs(p \<mapsto> Symlink t)) else None),
       op_open = flat_open,
       op_write = flat_write,
       op_rename = flat_rename \<rparr>"



section \<open>Replacing the manifest\<close>

text \<open>
  The last filesystem actions of \<open>main\<close>:
  \<^verbatim>\<open>
  remove(connection.known_files_old);
  if ((rename(connection.known_files_new, connection.known_files_old)) != 0)
      err(EXIT_FAILURE, "Cannot rename %s", connection.known_files_old);
  \<close>
  The result of \<open>remove\<close> is not looked at. The model returns, with the outcome, the
  states the filesystem goes through: a run interrupted after \<open>k\<close> of the calls leaves the
  \<open>k\<close>-th state on disk.
\<close>

definition replace_known_files ::
  "'fs fsops \<Rightarrow> 'fs \<Rightarrow> string \<Rightarrow> string \<Rightarrow> unit result \<times> 'fs list" where
  "replace_known_files ops fs known_files_old known_files_new =
     (let fs1 = (case op_remove ops fs known_files_old of None \<Rightarrow> fs | Some f \<Rightarrow> f) in
      case op_rename ops fs1 known_files_new known_files_old of
        None \<Rightarrow> (Fatal (''Cannot rename '' @ known_files_old), [fs, fs1])
      | Some fs2 \<Rightarrow> (Ok (), [fs, fs1, fs2]))"

text \<open>
  C7 (as amended). The replacement is two filesystem operations, not one. Where both
  manifests exist, the run succeeds and the disk goes through three states: the old
  manifest intact; no file at \<open>known_files\<close>, the new manifest still at \<open>known_files.new\<close>;
  the new manifest at \<open>known_files\<close> and nothing at \<open>known_files.new\<close>.
\<close>

theorem replace_known_files_two_steps:
  "fs old = Some a \<longrightarrow> fs new = Some b \<longrightarrow> old \<noteq> new \<longrightarrow>
     replace_known_files flat_ops fs old new =
       (Ok (), [fs, fs(old := None), (fs(old \<mapsto> b))(new := None)])"
  by (auto simp: replace_known_files_def flat_ops_def flat_rename_def Let_def fun_eq_iff)

theorem replace_known_files_two_steps_witness:
  "replace_known_files flat_ops
     [''w/known_files'' \<mapsto> Regular ''A'' False, ''w/known_files.new'' \<mapsto> Regular ''B'' False]
     ''w/known_files'' ''w/known_files.new'' =
   (Ok (), [[''w/known_files'' \<mapsto> Regular ''A'' False, ''w/known_files.new'' \<mapsto> Regular ''B'' False],
            [''w/known_files'' \<mapsto> Regular ''A'' False, ''w/known_files.new'' \<mapsto> Regular ''B'' False]
              (''w/known_files'' := None),
            ([''w/known_files'' \<mapsto> Regular ''A'' False, ''w/known_files.new'' \<mapsto> Regular ''B'' False]
              (''w/known_files'' \<mapsto> Regular ''B'' False))(''w/known_files.new'' := None)])"
  using replace_known_files_two_steps [where old = "''w/known_files''" and new = "''w/known_files.new''"
    and a = "Regular ''A'' False" and b = "Regular ''B'' False"
    and fs = "[''w/known_files'' \<mapsto> Regular ''A'' False, ''w/known_files.new'' \<mapsto> Regular ''B'' False]"]
  by simp

text \<open>
  C7 as stated fails: after the first of the two calls the old manifest is gone and
  nothing is in its place; the new manifest is still under its temporary name.
\<close>

theorem replace_known_files_gap_counterexample:
  "(snd (replace_known_files flat_ops
           [''w/known_files'' \<mapsto> Regular ''A'' False, ''w/known_files.new'' \<mapsto> Regular ''B'' False]
           ''w/known_files'' ''w/known_files.new'') ! 1) ''w/known_files'' = None \<and>
   (snd (replace_known_files flat_ops
           [''w/known_files'' \<mapsto> Regular ''A'' False, ''w/known_files.new'' \<mapsto> Regular ''B'' False]
           ''w/known_files'' ''w/known_files.new'') ! 1) ''w/known_files.new'' =
     Some (Regular ''B'' False)"
  by (simp add: replace_known_files_def flat_ops_def flat_rename_def Let_def)

section \<open>File entries\<close>

text \<open>
  \<open>file_node\<close> as the source declares it. \<open>md5\<close> is the buffer \<^verbatim>\<open>char md5[33]\<close>, held as the
  bytes written to it: \<open>new_file_node\<close> allocates with \<open>calloc\<close>, so every byte not written
  is NUL, and nothing writes \<open>md5[32]\<close>. \<open>size_f\<close> is the field \<open>size\<close> (\<open>-1\<close>: not known yet).
\<close>

record file_node =
  md5 :: string
  md5_checked :: bool
  download :: bool
  executable :: bool
  special :: bool
  href :: "string option"
  path :: string
  raw_size :: nat
  size_f :: int

definition new_file_node :: file_node where
  "new_file_node =
     \<lparr> md5 = [], md5_checked = False, download = False, executable = False, special = False,
       href = None, path = [], raw_size = 0, size_f = 0 \<rparr>"

definition isdigit :: "char \<Rightarrow> bool" where
  "isdigit c = (c \<in> set ''0123456789'')"

text \<open>
  \<^verbatim>\<open>
  char *tmp = path;
  if(connection->rev_root_stub && strstr(path, connection->rev_root_stub) == path) {
      tmp += strlen(connection->rev_root_stub);
      if(*tmp == '/')++tmp;
      while(isdigit(*tmp))++tmp;
  }
  return tmp;
  \<close>
\<close>

definition strip_rev_root_stub :: "string option \<Rightarrow> string \<Rightarrow> string" where
  "strip_rev_root_stub rev_root_stub p =
     (case rev_root_stub of
        None \<Rightarrow> p
      | Some stub \<Rightarrow>
          if take (length stub) p = stub then
            (let tmp = drop (length stub) p;
                 tmp1 = (case tmp of [] \<Rightarrow> tmp | c # r \<Rightarrow> if c = CHR ''/'' then r else tmp)
             in dropWhile isdigit tmp1)
          else p)"

section \<open>Reconciliation: check_md5\<close>

text \<open>
  \<open>known_files\<close> is a red-black tree of \<open>(path, md5)\<close> nodes ordered by \<open>strcmp\<close> on the path,
  so it holds at most one node per path: a map from path to md5. Each md5 is a string made
  by \<open>strdup\<close>: its allocation is the string and its NUL.

  \<^verbatim>\<open>memcmp(data->md5, file->md5, 32)\<close> reads 32 bytes of both. Where the allocation of
  \<open>data->md5\<close> is shorter and agrees with \<open>file->md5\<close> on all of it, the comparison runs
  past the allocation.
\<close>

definition pad :: "nat \<Rightarrow> string \<Rightarrow> string" where
  "pad n xs = take n (xs @ replicate n NUL)"

definition memcmp32 :: "string \<Rightarrow> string \<Rightarrow> bool result" where
  "memcmp32 known_md5 file_md5 =
     (let a = known_md5 @ [NUL]; b = pad 32 file_md5 in
      if 32 \<le> length a then Ok (take 32 a = b)
      else if a = take (length a) b then Crash OutOfBounds
      else Ok False)"

text \<open>
  \<^verbatim>\<open>
  if(file->md5[0] && !file->md5_checked) {
      file->md5_checked = 1;
      file->download = 1; /* default to "md5 doesn't match local file" */
      snprintf(buf, sizeof buf, "%s", strip_rev_root_stub(connection, file->path));
      for (data = RB_MIN(tree_known_files, &known_files); data != NULL; data = next) {
          if(!strcmp(data->path, buf)) {
              if(!memcmp(data->md5, file->md5, 32)) {
                  file->download = 0;
                  return;
              }
              /* file encountered in known_files, but md5 mismatch */
              break;
          }
          next = RB_NEXT(tree_known_files, head, data);
      }
  }
  \<close>
  \<open>buf\<close> has 4096 bytes, so \<open>snprintf\<close> keeps 4095 characters of the stripped path.
\<close>

definition known_files_key :: "string option \<Rightarrow> file_node \<Rightarrow> string" where
  "known_files_key rev_root_stub f = take 4095 (strip_rev_root_stub rev_root_stub (path f))"

definition check_md5 :: "string option \<Rightarrow> (string \<rightharpoonup> string) \<Rightarrow> file_node \<Rightarrow> file_node result" where
  "check_md5 rev_root_stub known_files f =
     (if cstr (md5 f) \<noteq> [] \<and> \<not> md5_checked f then
        (let f1 = f\<lparr>md5_checked := True, download := True\<rparr> in
         case known_files (known_files_key rev_root_stub f) of
           None \<Rightarrow> Ok f1
         | Some m \<Rightarrow>
             (case memcmp32 m (md5 f) of
                Ok True \<Rightarrow> Ok (f1\<lparr>download := False\<rparr>)
              | Ok False \<Rightarrow> Ok f1
              | Fatal e \<Rightarrow> Fatal e
              | Crash c \<Rightarrow> Crash c))
      else Ok f)"

text \<open>The loop of \<open>main\<close> over the file vector: \<^verbatim>\<open>for (f = 0; f < file_count; ++f) check_md5(&connection, file[f]);\<close>\<close>

fun check_md5_all ::
  "string option \<Rightarrow> (string \<rightharpoonup> string) \<Rightarrow> file_node list \<Rightarrow> file_node list result" where
  "check_md5_all rev_root_stub known_files [] = Ok []"
| "check_md5_all rev_root_stub known_files (f # fs) =
     (case check_md5 rev_root_stub known_files f of
        Ok f' \<Rightarrow>
          (case check_md5_all rev_root_stub known_files fs of
             Ok fs' \<Rightarrow> Ok (f' # fs')
           | Fatal e \<Rightarrow> Fatal e
           | Crash c \<Rightarrow> Crash c)
      | Fatal e \<Rightarrow> Fatal e
      | Crash c \<Rightarrow> Crash c)"

lemma check_md5_fields:
  "check_md5 stub known f = Ok f' \<Longrightarrow> md5 f' = md5 f \<and> path f' = path f"
  by (auto simp: check_md5_def Let_def split: if_splits option.splits result.splits bool.splits)

lemma check_md5_fresh:
  assumes "check_md5 stub known f = Ok f'" "\<not> md5_checked f" "\<not> download f" "cstr (md5 f) \<noteq> []"
  shows "\<not> download f' \<longleftrightarrow>
         (\<exists>m. known (known_files_key stub f) = Some m \<and> memcmp32 m (md5 f) = Ok True)"
  using assms
  by (auto simp: check_md5_def Let_def split: if_splits option.splits result.splits bool.splits)

lemma check_md5_checked:
  "md5_checked f \<Longrightarrow> check_md5 stub known f = Ok f"
  by (simp add: check_md5_def)

lemma check_md5_all_set:
  "check_md5_all stub known fs = Ok fs' \<Longrightarrow> f' \<in> set fs' \<Longrightarrow>
     \<exists>f \<in> set fs. check_md5 stub known f = Ok f'"
proof (induction fs arbitrary: fs')
  case Nil
  then show ?case by simp
next
  case (Cons a fs)
  then show ?case
    by (auto split: result.splits)
qed

lemma memcmp32_True:
  "memcmp32 m b = Ok True \<longleftrightarrow> 31 \<le> length m \<and> take 32 (m @ [NUL]) = pad 32 b"
  by (auto simp: memcmp32_def Let_def)

definition isxdigit :: "char \<Rightarrow> bool" where
  "isxdigit c = (c \<in> set ''0123456789abcdefABCDEF'')"

lemma check_md5_returns:
  assumes "\<forall>p m. known p = Some m \<longrightarrow> 31 \<le> length m"
  shows "\<exists>f'. check_md5 stub known f = Ok f'"
proof (cases "known (known_files_key stub f)")
  case None
  then show ?thesis by (simp add: check_md5_def Let_def)
next
  case (Some m)
  with assms have "31 \<le> length m" by blast
  then have "memcmp32 m (md5 f) = Ok (take 32 (m @ [NUL]) = pad 32 (md5 f))"
    by (simp add: memcmp32_def Let_def)
  with Some show ?thesis by (simp add: check_md5_def Let_def split: bool.splits)
qed

lemma check_md5_all_returns:
  assumes "\<forall>p m. known p = Some m \<longrightarrow> 31 \<le> length m"
  shows "\<exists>fs'. check_md5_all stub known fs = Ok fs'"
proof (induction fs)
  case Nil
  show ?case by simp
next
  case (Cons a fs)
  from check_md5_returns [OF assms] obtain a' where "check_md5 stub known a = Ok a'" by blast
  moreover from Cons obtain fs' where "check_md5_all stub known fs = Ok fs'" by blast
  ultimately show ?case by simp
qed

text \<open>
  C1 (as amended). Every entry starts with \<open>md5_checked\<close> and \<open>download\<close> clear (\<open>calloc\<close> in
  \<open>new_file_node\<close>; only \<open>check_md5\<close> writes the two fields). After \<open>check_md5\<close> has run over
  the vector, an entry whose md5 is not empty has \<open>download\<close> clear exactly when \<open>known_files\<close>
  has the stripped path and the 32 bytes of its md5 there are the 32 bytes of the entry's
  md5; so an entry with no node in \<open>known_files\<close> has \<open>download\<close> set. Nothing looks at the
  local filesystem, and nothing checks that the md5 is hexadecimal. On a manifest whose md5
  strings have 31 characters or more the pass returns.
\<close>

theorem check_md5_all_download:
  "((\<forall>p m. known p = Some m \<longrightarrow> 31 \<le> length m) \<longrightarrow>
      (\<exists>files'. check_md5_all stub known files = Ok files')) \<and>
   ((\<forall>f \<in> set files. \<not> md5_checked f \<and> \<not> download f) \<longrightarrow>
     check_md5_all stub known files = Ok files' \<longrightarrow>
     (\<forall>f' \<in> set files'. cstr (md5 f') \<noteq> [] \<longrightarrow>
        (\<not> download f' \<longleftrightarrow>
           (\<exists>m. known (known_files_key stub f') = Some m \<and> 31 \<le> length m \<and>
                take 32 (m @ [NUL]) = pad 32 (md5 f')))))"
proof (intro conjI impI ballI)
  assume "\<forall>p m. known p = Some m \<longrightarrow> 31 \<le> length m"
  then show "\<exists>files'. check_md5_all stub known files = Ok files'"
    by (rule check_md5_all_returns)
next
  fix f'
  assume fresh: "\<forall>f \<in> set files. \<not> md5_checked f \<and> \<not> download f"
    and run: "check_md5_all stub known files = Ok files'"
    and f': "f' \<in> set files'" and ne: "cstr (md5 f') \<noteq> []"
  from check_md5_all_set [OF run f'] obtain f
    where f: "f \<in> set files" and c: "check_md5 stub known f = Ok f'" by blast
  from check_md5_fields [OF c] have same: "md5 f' = md5 f" "path f' = path f" by simp_all
  then have key: "known_files_key stub f' = known_files_key stub f"
    by (simp add: known_files_key_def)
  from fresh f have "\<not> md5_checked f" "\<not> download f" by blast+
  from check_md5_fresh [OF c this] ne same
  have "\<not> download f' \<longleftrightarrow>
        (\<exists>m. known (known_files_key stub f) = Some m \<and> memcmp32 m (md5 f) = Ok True)"
    by simp
  then show "\<not> download f' \<longleftrightarrow>
        (\<exists>m. known (known_files_key stub f') = Some m \<and> 31 \<le> length m \<and>
             take 32 (m @ [NUL]) = pad 32 (md5 f'))"
    by (simp add: key same memcmp32_True)
qed

theorem check_md5_all_download_witness:
  "check_md5_all (Some ''/repo/!svn/rvr'')
     [''/trunk/a.c'' \<mapsto> ''0123456789abcdef0123456789abcdef'']
     [new_file_node\<lparr>md5 := ''0123456789abcdef0123456789abcdef'',
                     path := ''/repo/!svn/rvr/42/trunk/a.c''\<rparr>] =
   Ok [new_file_node\<lparr>md5 := ''0123456789abcdef0123456789abcdef'',
                      path := ''/repo/!svn/rvr/42/trunk/a.c'',
                      md5_checked := True, download := False\<rparr>] \<and>
   (\<exists>m. [''/trunk/a.c'' \<mapsto> ''0123456789abcdef0123456789abcdef'']
          (known_files_key (Some ''/repo/!svn/rvr'')
             (new_file_node\<lparr>md5 := ''0123456789abcdef0123456789abcdef'',
                             path := ''/repo/!svn/rvr/42/trunk/a.c'',
                             md5_checked := True, download := False\<rparr>)) = Some m \<and>
        31 \<le> length m \<and>
        take 32 (m @ [NUL]) =
          pad 32 (md5 (new_file_node\<lparr>md5 := ''0123456789abcdef0123456789abcdef'',
                             path := ''/repo/!svn/rvr/42/trunk/a.c'',
                             md5_checked := True, download := False\<rparr>)))"
proof -
  let ?K = "[''/trunk/a.c'' \<mapsto> ''0123456789abcdef0123456789abcdef'']"
  let ?F = "new_file_node\<lparr>md5 := ''0123456789abcdef0123456789abcdef'',
                     path := ''/repo/!svn/rvr/42/trunk/a.c''\<rparr>"
  let ?F' = "new_file_node\<lparr>md5 := ''0123456789abcdef0123456789abcdef'',
                      path := ''/repo/!svn/rvr/42/trunk/a.c'',
                      md5_checked := True, download := False\<rparr>"
  have key: "known_files_key (Some ''/repo/!svn/rvr'') ?F = ''/trunk/a.c''"
    by (simp add: known_files_key_def strip_rev_root_stub_def new_file_node_def isdigit_def)
  have run: "check_md5_all (Some ''/repo/!svn/rvr'') ?K [?F] = Ok [?F']"
    by (simp add: check_md5_def key memcmp32_def pad_def Let_def cstr_def NUL_def)
       (simp add: new_file_node_def)
  have fresh: "\<forall>f \<in> set [?F]. \<not> md5_checked f \<and> \<not> download f"
    by (simp add: new_file_node_def)
  have ne: "cstr (md5 ?F') \<noteq> []"
    by (simp add: new_file_node_def cstr_def NUL_def)
  have dl: "\<not> download ?F'"
    by (simp add: new_file_node_def)
  from check_md5_all_download [where stub = "Some ''/repo/!svn/rvr''" and known = ?K
      and files = "[?F]" and files' = "[?F']"] fresh run ne dl
  have "\<exists>m. ?K (known_files_key (Some ''/repo/!svn/rvr'') ?F') = Some m \<and> 31 \<le> length m \<and>
            take 32 (m @ [NUL]) = pad 32 (md5 ?F')"
    by simp
  with run show ?thesis by blast
qed

text \<open>
  C1 as stated fails on an entry whose md5 is empty: \<open>check_md5\<close> leaves it alone, so at the
  end it has \<open>download\<close> clear although its md5 is empty and \<open>known_files\<close> has no node for its
  path. It also fails on the hexadecimal part: 32 equal bytes are enough.
\<close>

theorem check_md5_all_empty_md5_counterexample:
  "check_md5_all None Map.empty [new_file_node\<lparr>path := ''/a.c''\<rparr>] =
     Ok [new_file_node\<lparr>path := ''/a.c''\<rparr>] \<and>
   \<not> download (new_file_node\<lparr>path := ''/a.c''\<rparr>) \<and>
   md5 (new_file_node\<lparr>path := ''/a.c''\<rparr>) = [] \<and>
   check_md5_all None [''/a.c'' \<mapsto> ''zzzzzzzzzzzzzzzzzzzzzzzzzzzzzzzz'']
     [new_file_node\<lparr>md5 := ''zzzzzzzzzzzzzzzzzzzzzzzzzzzzzzzz'', path := ''/a.c''\<rparr>] =
     Ok [new_file_node\<lparr>md5 := ''zzzzzzzzzzzzzzzzzzzzzzzzzzzzzzzz'', path := ''/a.c'',
                        md5_checked := True, download := False\<rparr>] \<and>
   \<not> list_all isxdigit ''zzzzzzzzzzzzzzzzzzzzzzzzzzzzzzzz''"
  by (simp add: check_md5_def new_file_node_def cstr_def NUL_def known_files_key_def
      strip_rev_root_stub_def memcmp32_def pad_def Let_def isxdigit_def)

section \<open>The body pass: get_files\<close>




definition LF :: char where
  "LF = CHR 0x0A"










section \<open>Loading the manifest: load_known_files\<close>

definition TAB :: char where
  "TAB = CHR 0x09"

definition cstr_at :: "string \<Rightarrow> nat \<Rightarrow> string" where
  "cstr_at buf i = cstr (drop i buf)"

text \<open>
  \<open>RB_INSERT\<close> keeps the node already in the tree when the key is there.
\<close>

definition rb_insert :: "(string \<rightharpoonup> string) \<Rightarrow> string \<Rightarrow> string \<Rightarrow> (string \<rightharpoonup> string)" where
  "rb_insert t k v = (case t k of None \<Rightarrow> t(k \<mapsto> v) | Some old \<Rightarrow> t)"

lemma strchr_less: "strchr xs c = Some n \<Longrightarrow> n < length xs"
  by (induction xs arbitrary: n) (auto split: if_splits)

text \<open>
  \<^verbatim>\<open>
  value = connection->known_files;
  while (*value) {
      md5 = value;
      path = strchr(value, '\t') + 1;
      value = strchr(path, '\n');
      *value++ = '\0';
      md5[32] = '\0';
      data = (struct tree_node *)malloc(sizeof(struct tree_node));
      data->path = strdup(path);
      data->md5 = strdup(md5);
      RB_INSERT(tree_known_files, &known_files, data);
  }
  \<close>
  \<open>buf\<close> is the buffer \<open>connection->known_files\<close> (the bytes of the file and a NUL), \<open>v\<close> the
  offset of \<open>value\<close> in it. No result of \<open>strchr\<close> is checked: without a tab \<open>path\<close> is the
  null pointer plus one, without a newline the store goes through the null pointer. The
  store to \<open>md5[32]\<close> is made wherever that is; past the buffer it is out of bounds.
\<close>

function load_known_files_loop ::
  "string \<Rightarrow> nat \<Rightarrow> (string \<rightharpoonup> string) \<Rightarrow> (string \<rightharpoonup> string) result" where
  "load_known_files_loop buf v known =
     (if length buf \<le> v then Crash OutOfBounds
      else if buf ! v = NUL then Ok known
      else
        (case strchr (cstr_at buf v) TAB of
           None \<Rightarrow> Crash NullPointer
         | Some t \<Rightarrow>
             (let p = v + t + 1 in
              case strchr (cstr_at buf p) LF of
                None \<Rightarrow> Crash NullPointer
              | Some n \<Rightarrow>
                  (let nl = p + n; buf1 = buf[nl := NUL] in
                   if length buf \<le> v + 32 then Crash OutOfBounds
                   else
                     (let buf2 = buf1[v + 32 := NUL] in
                      load_known_files_loop buf2 (nl + 1)
                        (rb_insert known (cstr_at buf2 p) (cstr_at buf2 v)))))))"
  by pat_completeness auto
termination
  by (relation "measure (\<lambda>(buf, v, known). length buf - v)") auto

declare load_known_files_loop.simps [simp del]

text \<open>
  \<open>load_known_files\<close> on the content of \<open><path_work>/known_files\<close>; \<open>None\<close> when \<open>stat\<close> finds
  no such file, and then the tree stays empty.
\<close>

definition load_known_files :: "string option \<Rightarrow> (string \<rightharpoonup> string) result" where
  "load_known_files file =
     (case file of
        None \<Rightarrow> Ok Map.empty
      | Some content \<Rightarrow> load_known_files_loop (content @ [NUL]) 0 Map.empty)"

definition manifest_line :: "string \<times> string \<Rightarrow> string" where
  "manifest_line l = fst l @ [TAB] @ snd l @ [LF]"

lemma cstr_append_notin: "NUL \<notin> set xs \<Longrightarrow> cstr (xs @ ys) = xs @ cstr ys"
  by (induction xs) (auto simp: cstr_def)

lemma cstr_Cons_NUL: "cstr (NUL # ys) = []"
  by (simp add: cstr_def)

lemma cstr_Cons: "c \<noteq> NUL \<Longrightarrow> cstr (c # ys) = c # cstr ys"
  by (simp add: cstr_def)

lemma ctrl_chars_distinct: "TAB \<noteq> NUL" "LF \<noteq> NUL" "TAB \<noteq> LF"
  by (simp_all add: TAB_def LF_def NUL_def)

lemma load_known_files_loop_line:
  assumes m: "length m = 32" "NUL \<notin> set m" "TAB \<notin> set m"
    and p: "NUL \<notin> set p" "LF \<notin> set p"
  shows "load_known_files_loop (pre @ m @ TAB # p @ LF # rest) (length pre) known =
         load_known_files_loop (pre @ m @ NUL # p @ NUL # rest)
           (length pre + 32 + 1 + length p + 1) (rb_insert known p m)"
proof -
  let ?buf = "pre @ m @ TAB # p @ LF # rest"
  let ?v = "length pre"
  from m obtain c m' where mc: "m = c # m'" by (cases m) auto
  with m have c: "c \<noteq> NUL" by auto
  have len: "\<not> length ?buf \<le> ?v" using m by simp
  have nz: "?buf ! ?v \<noteq> NUL" using c by (simp add: mc nth_append)
  have at_v: "cstr_at ?buf ?v = m @ TAB # p @ LF # cstr rest"
    using m p by (simp add: cstr_at_def cstr_append_notin cstr_Cons ctrl_chars_distinct)
  have tab: "strchr (cstr_at ?buf ?v) TAB = Some 32"
    unfolding at_v using strchr_append_notin [OF m(3)] m(1) by simp
  have drop_p: "drop (?v + 32 + 1) ?buf = p @ LF # rest"
    using m by simp
  have at_p: "cstr_at ?buf (?v + 32 + 1) = p @ LF # cstr rest"
    unfolding cstr_at_def drop_p using p by (simp add: cstr_append_notin cstr_Cons ctrl_chars_distinct)
  have nl: "strchr (cstr_at ?buf (?v + 32 + 1)) LF = Some (length p)"
    unfolding at_p using strchr_append_notin [OF p(2)] by simp
  have buf1: "?buf[?v + 32 + 1 + length p := NUL] = pre @ m @ TAB # p @ NUL # rest"
    using m by (simp add: list_update_append)
  have len32: "\<not> length ?buf \<le> ?v + 32" using m by simp
  have buf2: "(pre @ m @ TAB # p @ NUL # rest)[?v + 32 := NUL] = pre @ m @ NUL # p @ NUL # rest"
    using m by (simp add: list_update_append)
  have at_p2: "cstr_at (pre @ m @ NUL # p @ NUL # rest) (?v + 32 + 1) = p"
    using m p by (simp add: cstr_at_def cstr_append_notin cstr_Cons_NUL)
  have at_v2: "cstr_at (pre @ m @ NUL # p @ NUL # rest) ?v = m"
    using m by (simp add: cstr_at_def cstr_append_notin cstr_Cons_NUL)
  show ?thesis
    apply (subst load_known_files_loop.simps)
    apply (simp only: len nz tab nl if_False option.case Let_def buf1 len32 buf2 at_p2 at_v2)
    done
qed

lemma load_known_files_loop_lines:
  assumes "\<forall>l \<in> set ls. length (fst l) = 32 \<and> NUL \<notin> set (fst l) \<and> TAB \<notin> set (fst l) \<and>
             NUL \<notin> set (snd l) \<and> LF \<notin> set (snd l)"
  shows "load_known_files_loop (pre @ concat (map manifest_line ls) @ [NUL]) (length pre) known =
         Ok (foldl (\<lambda>k l. rb_insert k (snd l) (fst l)) known ls)"
  using assms
proof (induction ls arbitrary: pre known)
  case Nil
  show ?case
    by (subst load_known_files_loop.simps) (simp add: nth_append)
next
  case (Cons l ls)
  let ?rest = "concat (map manifest_line ls) @ [NUL]"
  let ?pre = "pre @ fst l @ NUL # snd l @ [NUL]"
  from Cons.prems have l: "length (fst l) = 32" "NUL \<notin> set (fst l)" "TAB \<notin> set (fst l)"
    "NUL \<notin> set (snd l)" "LF \<notin> set (snd l)" by simp_all
  have "load_known_files_loop (pre @ concat (map manifest_line (l # ls)) @ [NUL]) (length pre) known =
        load_known_files_loop (pre @ fst l @ TAB # snd l @ LF # ?rest) (length pre) known"
    by (simp add: manifest_line_def)
  also have "\<dots> = load_known_files_loop (pre @ fst l @ NUL # snd l @ NUL # ?rest)
                    (length pre + 32 + 1 + length (snd l) + 1) (rb_insert known (snd l) (fst l))"
    by (rule load_known_files_loop_line [OF l])
  also have "\<dots> = load_known_files_loop (?pre @ ?rest) (length ?pre) (rb_insert known (snd l) (fst l))"
  proof -
    have "pre @ fst l @ NUL # snd l @ NUL # ?rest = ?pre @ ?rest" by simp
    moreover have "length pre + 32 + 1 + length (snd l) + 1 = length ?pre" using l(1) by simp
    ultimately show ?thesis by (simp only:)
  qed
  also have "\<dots> = Ok (foldl (\<lambda>k l. rb_insert k (snd l) (fst l)) (rb_insert known (snd l) (fst l)) ls)"
    using Cons.prems by (intro Cons.IH) simp
  finally show ?case by simp
qed

text \<open>
  C5 (as amended). Nothing in \<open>load_known_files\<close> validates a line. A manifest made of
  lines \<open><32 bytes>\t<path>\n\<close>, where the 32 bytes are any bytes but tab and NUL
  (hexadecimal or not) and the path has no newline and no NUL, is loaded without error:
  each line is inserted as path and md5, the first line for a path winning.
\<close>

theorem load_known_files_accepts:
  "(\<forall>l \<in> set ls. length (fst l) = 32 \<and> NUL \<notin> set (fst l) \<and> TAB \<notin> set (fst l) \<and>
             NUL \<notin> set (snd l) \<and> LF \<notin> set (snd l)) \<longrightarrow>
   load_known_files (Some (concat (map manifest_line ls))) =
     Ok (foldl (\<lambda>k l. rb_insert k (snd l) (fst l)) Map.empty ls)"
  using load_known_files_loop_lines [where pre = "[]" and ls = ls and known = Map.empty]
  by (simp add: load_known_files_def)

theorem load_known_files_accepts_witness:
  "load_known_files (Some (concat (map manifest_line
       [(''0123456789abcdef0123456789abcdef'', ''/trunk/a.c''),
        (''00112233445566778899aabbccddeeff'', ''/trunk/dir/b c.h'')]))) =
   Ok (foldl (\<lambda>k l. rb_insert k (snd l) (fst l)) Map.empty
       [(''0123456789abcdef0123456789abcdef'', ''/trunk/a.c''),
        (''00112233445566778899aabbccddeeff'', ''/trunk/dir/b c.h'')])"
proof -
  have "\<forall>l \<in> set [(''0123456789abcdef0123456789abcdef'', ''/trunk/a.c''),
                   (''00112233445566778899aabbccddeeff'', ''/trunk/dir/b c.h'')].
          length (fst l) = 32 \<and> NUL \<notin> set (fst l) \<and> TAB \<notin> set (fst l) \<and>
          NUL \<notin> set (snd l) \<and> LF \<notin> set (snd l)"
    by (simp add: NUL_def TAB_def LF_def)
  with load_known_files_accepts [where ls = "[(''0123456789abcdef0123456789abcdef'', ''/trunk/a.c''),
        (''00112233445566778899aabbccddeeff'', ''/trunk/dir/b c.h'')]"]
  show ?thesis by blast
qed

text \<open>
  C5 as stated fails. A line whose md5 field is 32 bytes that are not hexadecimal, and a
  line whose md5 field has 34 bytes, are both inserted with no error (the second with the
  first 32 bytes as md5); a line without a tab is a null-pointer access, not a diagnostic.
\<close>

theorem load_known_files_no_validation_counterexample:
  "(case load_known_files (Some (''zzzzzzzzzzzzzzzzzzzzzzzzzzzzzzzz'' @ [TAB] @ ''/a.c'' @ [LF])) of
      Ok k \<Rightarrow> k ''/a.c'' | Fatal e \<Rightarrow> None | Crash c \<Rightarrow> None) =
     Some ''zzzzzzzzzzzzzzzzzzzzzzzzzzzzzzzz'' \<and>
   (case load_known_files (Some (''0123456789abcdef0123456789abcdefXY'' @ [TAB] @ ''/a.c'' @ [LF])) of
      Ok k \<Rightarrow> k ''/a.c'' | Fatal e \<Rightarrow> None | Crash c \<Rightarrow> None) =
     Some ''0123456789abcdef0123456789abcdef'' \<and>
   (case load_known_files (Some (''0123456789abcdef0123456789abcdef /a.c'' @ [LF])) of
      Ok k \<Rightarrow> None | Fatal e \<Rightarrow> None | Crash c \<Rightarrow> Some c) = Some NullPointer"
  by code_simp

section \<open>The SVN response assembler: process_command_svn\<close>

text \<open>
  \<open>input\<close> is the local buffer \<^verbatim>\<open>char input[BUFFER_UNIT + 1]\<close>. It is zeroed before every
  \<open>read\<close>, so with the bytes read held as a list, a read at or past the end of the list
  (and within the buffer) gives NUL.
\<close>

definition nth0 :: "string \<Rightarrow> nat \<Rightarrow> char" where
  "nth0 buf i = (if i < length buf then buf ! i else NUL)"

text \<open>
  \<open>atoi\<close> on a run of decimal digits. A value that does not fit \<open>int\<close> is undefined in C, and
  so is the \<open>+1\<close> the caller adds to \<open>INT_MAX\<close>; the caller below makes both a \<open>Crash\<close>.
\<close>

definition digit_val :: "char \<Rightarrow> int" where
  "digit_val c = of_char c - 48"

definition atoi_digits :: "string \<Rightarrow> int" where
  "atoi_digits ds = foldl (\<lambda>a c. 10 * a + digit_val c) 0 ds"

text \<open>
  The test for a size-annotated block at an opening parenthesis:
  \<^verbatim>\<open>
  int skip = 0;
  char *q, *p = check+1, *e = input + bytes_read;
  if(p+2 < e && p[0] == ' ' && isdigit(p[1])) {
      q = p+1;
      while(q < e && isdigit(*q)) ++q;
      if(q < e && *q == ':') {
          skip = atoi(p)+1;
          check = q;
      }
  }
  \<close>
  The result is the new \<open>check\<close> and \<open>skip\<close>.
\<close>

definition literal_skip :: "string \<Rightarrow> nat \<Rightarrow> (nat \<times> int) result" where
  "literal_skip inp chk =
     (let p = chk + 1; e = length inp in
      if p + 2 < e \<and> nth0 inp p = CHR '' '' \<and> isdigit (nth0 inp (p + 1)) then
        (let ds = takeWhile isdigit (drop (p + 1) inp); q = p + 1 + length ds in
         if q < e \<and> nth0 inp q = CHR '':'' then
           (if 2147483647 \<le> atoi_digits ds then Crash IntOverflow
            else Ok (q, atoi_digits ds + 1))
         else Ok (chk, 0))
      else Ok (chk, 0))"

text \<open>
  One turn of the inner loop, with the \<open>++check\<close> of its condition:
  \<^verbatim>\<open>
  do {
      if (*check == ')')
          --count;
      else if(*check == '(') {
          ... (the test above)
          if(skip) {
              if(check+skip < input + bytes_read) {
                  check += skip;
              } else if (connection->verbosity > 3) {
                  fprintf(stderr, "couldn't skip %d bytes", skip);
              }
          }
          ++count;
      }
      if (count == 0) {
          group++;
          check++;
          if (check < input + bytes_read) {
              if (*check == ' ')
                  *check = '\0';
              if (*check != '\0')
                  fprintf(stderr, "oops: %d %c\n", *check, *check);
              char *q = check + 1;
              while(q < input + bytes_read && *q != '(') ++q;
              check = q-1;
          }
      }
  }
  while (++check < input + bytes_read);
  \<close>
\<close>

definition scan_paren :: "string \<Rightarrow> nat \<Rightarrow> int \<Rightarrow> (nat \<times> int) result" where
  "scan_paren inp chk cnt =
     (if nth0 inp chk = CHR '')'' then Ok (chk, cnt - 1)
      else if nth0 inp chk = CHR ''(''  then
        (case literal_skip inp chk of
           Ok (chk1, skip) \<Rightarrow>
             Ok (if skip \<noteq> 0 \<and> int chk1 + skip < int (length inp) then nat (int chk1 + skip)
                 else chk1, cnt + 1)
         | Fatal e \<Rightarrow> Fatal e
         | Crash c \<Rightarrow> Crash c)
      else Ok (chk, cnt))"

definition scan_step :: "string \<Rightarrow> nat \<Rightarrow> int \<Rightarrow> nat \<Rightarrow> (string \<times> nat \<times> int \<times> nat) result" where
  "scan_step inp chk cnt grp =
     (case scan_paren inp chk cnt of
        Fatal e \<Rightarrow> Fatal e
      | Crash c \<Rightarrow> Crash c
      | Ok (chk2, cnt2) \<Rightarrow>
          if cnt2 = 0 then
            (let chk3 = chk2 + 1 in
             if chk3 < length inp then
               (let inp' = (if inp ! chk3 = CHR '' '' then inp[chk3 := NUL] else inp);
                    q = chk3 + 1 + length (takeWhile (\<lambda>x. x \<noteq> CHR ''('') (drop (chk3 + 1) inp'))
                in Ok (inp', q, cnt2, grp + 1))
             else Ok (inp, chk3 + 1, cnt2, grp + 1))
          else Ok (inp, chk2 + 1, cnt2, grp))"

lemma digit_val_range: "isdigit c \<Longrightarrow> 0 \<le> digit_val c \<and> digit_val c \<le> 9"
  by (auto simp: isdigit_def digit_val_def)

lemma foldl_digits_nonneg:
  "\<forall>c \<in> set ds. isdigit c \<Longrightarrow> 0 \<le> a \<Longrightarrow> 0 \<le> foldl (\<lambda>a c. 10 * a + digit_val c) a ds"
proof (induction ds arbitrary: a)
  case Nil
  then show ?case by simp
next
  case (Cons d ds)
  from Cons.prems digit_val_range [of d] have "0 \<le> 10 * a + digit_val d" by simp
  with Cons show ?case by simp
qed

lemma atoi_digits_nonneg: "\<forall>c \<in> set ds. isdigit c \<Longrightarrow> 0 \<le> atoi_digits ds"
  unfolding atoi_digits_def by (rule foldl_digits_nonneg) simp_all

lemma literal_skip_mono: "literal_skip inp chk = Ok (chk1, skip) \<Longrightarrow> chk \<le> chk1 \<and> 0 \<le> skip"
proof -
  have "0 \<le> atoi_digits (takeWhile isdigit (drop (chk + 1 + 1) inp))"
    by (rule atoi_digits_nonneg) (auto dest: set_takeWhileD)
  then show "literal_skip inp chk = Ok (chk1, skip) \<Longrightarrow> chk \<le> chk1 \<and> 0 \<le> skip"
    by (auto simp: literal_skip_def Let_def split: if_splits)
qed

lemma scan_paren_mono: "scan_paren inp chk cnt = Ok (chk2, cnt2) \<Longrightarrow> chk \<le> chk2"
  by (auto simp: scan_paren_def split: if_splits result.splits dest!: literal_skip_mono)

lemma scan_step_advances:
  "scan_step inp chk cnt grp = Ok (inp', chk', cnt', grp') \<Longrightarrow> chk < chk' \<and> length inp' = length inp"
  by (auto simp: scan_step_def Let_def split: if_splits result.splits dest: scan_paren_mono)

function scan_loop :: "string \<Rightarrow> nat \<Rightarrow> int \<Rightarrow> nat \<Rightarrow> (string \<times> int \<times> nat) result" where
  "scan_loop inp chk cnt grp =
     (case scan_step inp chk cnt grp of
        Fatal e \<Rightarrow> Fatal e
      | Crash c \<Rightarrow> Crash c
      | Ok (inp', chk', cnt', grp') \<Rightarrow>
          if chk' < length inp' then scan_loop inp' chk' cnt' grp' else Ok (inp', cnt', grp'))"
  by pat_completeness auto
termination
proof (relation "measure (\<lambda>(inp, chk, cnt, grp). length inp - chk)")
  show "wf (measure (\<lambda>(inp, chk, cnt, grp). length inp - chk))" by simp
next
  fix inp chk cnt grp x1 inp' y chk' z cnt' grp'
  assume "scan_step inp chk cnt grp = Ok x1" "(inp', y) = x1" "(chk', z) = y" "(cnt', grp') = z"
    "chk' < length inp'"
  then have "scan_step inp chk cnt grp = Ok (inp', chk', cnt', grp')" by simp
  from scan_step_advances [OF this] \<open>chk' < length inp'\<close>
  show "((inp', chk', cnt', grp'), (inp, chk, cnt, grp)) \<in> measure (\<lambda>(inp, chk, cnt, grp). length inp - chk)"
    by auto
qed

declare scan_loop.simps [simp del]

text \<open>
  What a call of \<open>read\<close> on the socket gives: bytes (at least one, at most \<open>BUFFER_UNIT\<close>);
  a result \<open>\<le> 0\<close> with \<open>errno\<close> \<open>EINTR\<close> or 0; a result \<open>\<le> 0\<close> with another \<open>errno\<close>. The
  connection is the list of the results of the successive calls; when the list is used up
  the next \<open>read\<close> does not return, and the outcome of the procedure is \<open>None\<close>.
\<close>

datatype read_result = Data string | Interrupted | Failed

text \<open>
  \<^verbatim>\<open>
  try = 0;
  retry:
  send_command(connection, command);
  count = position = ok = group = connection->response_length = 0;
  do {
      bzero(input, BUFFER_UNIT + 1);
      bytes_read = read(connection->socket_descriptor, input, BUFFER_UNIT);
      if (bytes_read <= 0) {
          if ((errno == EINTR) || (errno == 0)) continue;
          if (++try > 5)
              errx(EXIT_FAILURE, "Error in svn stream.  Quitting.");
          if (try > 1)
              fprintf(stderr, "Error in svn stream, retry #%d\n", try);
          goto retry;
      }
      input[bytes_read] = 0;
      connection->response_length += bytes_read;
      ... (the response buffer grows)
      if (expected_bytes == 0) {
          if (input[1] == '\0') {
              connection->response[position++] = input[0];
              continue;
          }
          check = input;
          if ((count == 0) && (input[0] == ' '))
              *check++ = '\0';
          do { ... } while (++check < input + bytes_read);
      }
      memcpy(connection->response + position, input, bytes_read + 1);
      position += bytes_read;
      if (group >= connection->response_groups)
          ok = 1;
      if (position == expected_bytes)
          ok = 1;
      if ((expected_bytes > 0) && (connection->response[0] == ' ') && (position == expected_bytes + 1))
          ok = 1;
  }
  while (!ok);
  connection->response[position] = '\0';
  return (connection->response);
  \<close>
  \<open>resp\<close> is \<open>connection->response\<close> up to \<open>position\<close>, \<open>tries\<close> is \<open>try\<close>, and \<open>sends\<close> counts the
  calls of \<open>send_command\<close>. The result is the outcome, \<open>sends\<close>, and the read results
  not consumed. The growth of the response buffer and a failing \<open>write\<close> in
  \<open>send_command\<close> are not modelled.
\<close>

fun svn_read ::
  "nat \<Rightarrow> nat \<Rightarrow> nat \<Rightarrow> nat \<Rightarrow> int \<Rightarrow> nat \<Rightarrow> string \<Rightarrow> read_result list \<Rightarrow>
     string result option \<times> nat \<times> read_result list" where
  "svn_read expected_bytes response_groups tries sends cnt grp resp [] = (None, sends, [])"
| "svn_read expected_bytes response_groups tries sends cnt grp resp (Interrupted # es) =
     svn_read expected_bytes response_groups tries sends cnt grp resp es"
| "svn_read expected_bytes response_groups tries sends cnt grp resp (Failed # es) =
     (if tries + 1 > 5 then (Some (Fatal ''Error in svn stream.  Quitting.''), sends, es)
      else svn_read expected_bytes response_groups (tries + 1) (sends + 1) 0 0 [] es)"
| "svn_read expected_bytes response_groups tries sends cnt grp resp (Data d # es) =
     (if d = [] then svn_read expected_bytes response_groups tries sends cnt grp resp es
      else if expected_bytes = 0 \<and> nth0 d 1 = NUL then
        svn_read expected_bytes response_groups tries sends cnt grp (resp @ [nth0 d 0]) es
      else
        (case (if expected_bytes = 0 then
                 (if cnt = 0 \<and> nth0 d 0 = CHR '' '' then scan_loop (d[0 := NUL]) 1 cnt grp
                  else scan_loop d 0 cnt grp)
               else Ok (d, cnt, grp)) of
           Fatal e \<Rightarrow> (Some (Fatal e), sends, es)
         | Crash c \<Rightarrow> (Some (Crash c), sends, es)
         | Ok (inp, cnt', grp') \<Rightarrow>
             (let resp' = resp @ inp in
              if response_groups \<le> grp' \<or> length resp' = expected_bytes \<or>
                 (0 < expected_bytes \<and> nth0 resp' 0 = CHR '' '' \<and> length resp' = expected_bytes + 1)
              then (Some (Ok resp'), sends, es)
              else svn_read expected_bytes response_groups tries sends cnt' grp' resp' es)))"

definition process_command_svn ::
  "nat \<Rightarrow> nat \<Rightarrow> read_result list \<Rightarrow> string result option \<times> nat \<times> read_result list" where
  "process_command_svn expected_bytes response_groups events =
     svn_read expected_bytes response_groups 0 1 0 0 [] events"

section \<open>The check-path exchange in main\<close>

text \<open>
  \<^verbatim>\<open>
  snprintf(command, COMMAND_BUFFER, "( check-path ( 0: ( %d ) ) )\n", connection.revision);
  process_command_svn(&connection, command, 0);

  if ((strcmp(connection.response, "( success ( ( ) 0: ) )") != 0) &&
      (strcmp(connection.response + 23, "( success ( dir ) ) ") != 0))
      errx(EXIT_FAILURE,
          "Remote path %s is not a repository directory.\n%s",
          connection.branch,
          connection.response);
  \<close>
  \<open>response_groups\<close> is 2 here (set before the login). \<open>response\<close> is the response buffer:
  what \<open>process_command_svn\<close> assembled, and its NUL.
\<close>

definition check_path :: "string \<Rightarrow> string \<Rightarrow> unit result" where
  "check_path branch response =
     (if cstr response \<noteq> ''( success ( ( ) 0: ) )'' \<and>
         cstr (drop 23 response) \<noteq> ''( success ( dir ) ) ''
      then Fatal (''Remote path '' @ branch @ '' is not a repository directory.'' @ [LF] @ cstr response)
      else Ok ())"

definition main_check_path :: "string \<Rightarrow> read_result list \<Rightarrow> unit result option" where
  "main_check_path branch events =
     (case process_command_svn 0 2 events of
        (None, sends, rest) \<Rightarrow> None
      | (Some (Fatal e), sends, rest) \<Rightarrow> Some (Fatal e)
      | (Some (Crash c), sends, rest) \<Rightarrow> Some (Crash c)
      | (Some (Ok resp), sends, rest) \<Rightarrow> Some (check_path branch (resp @ [NUL])))"

text \<open>
  C6 fails on the code. The two comparisons are joined by \<open>&&\<close>: the program stops only when
  the first group is not \<open>( success ( ( ) 0: ) )\<close> and the second is not the expected one.
  A reply whose second group reports \<open>file\<close> (or \<open>none\<close>) passes, since its first group is the
  expected one.
\<close>

theorem main_check_path_file_passes:
  "main_check_path ''repo/trunk/README'' [Data ''( success ( ( ) 0: ) ) ( success ( file ) ) ''] = Some (Ok ()) \<and>
   main_check_path ''repo/nothing'' [Data ''( success ( ( ) 0: ) ) ( success ( none ) ) ''] = Some (Ok ())"
  by code_simp

section \<open>Retries\<close>




definition failures :: "read_result list \<Rightarrow> nat" where
  "failures es = length (filter (\<lambda>e. e = Failed) es)"

lemma failures_simps [simp]:
  "failures [] = 0"
  "failures (Failed # es) = Suc (failures es)"
  "failures (Interrupted # es) = failures es"
  "failures (Data d # es) = failures es"
  by (simp_all add: failures_def)









section \<open>Size-annotated blocks in the SVN scan\<close>

lemma nth0_append_right: "nth0 (a @ s) (length a + k) = nth0 s k"
  by (simp add: nth0_def nth_append)

lemma nth0_append_ge: "length a \<le> i \<Longrightarrow> nth0 (a @ s) i = nth0 s (i - length a)"
  by (auto simp: nth0_def nth_append)

lemma literal_skip_append:
  "literal_skip (a @ s) (length a + k) =
     map_result (\<lambda>(c, sk). (length a + c, sk)) (literal_skip s k)"
  by (auto simp: literal_skip_def Let_def nth0_append_ge)

lemma scan_paren_append:
  "scan_paren (a @ s) (length a + k) cnt =
     map_result (\<lambda>(c, n). (length a + c, n)) (scan_paren s k cnt)"
proof (cases "literal_skip s k")
  case (Ok x)
  obtain chk1 skip where x: "x = (chk1, skip)" by (cases x)
  from literal_skip_mono [of s k chk1 skip] Ok x have "0 \<le> skip" by simp
  then have "nat (int (length a + chk1) + skip) = length a + nat (int chk1 + skip)"
    by (simp add: nat_add_distrib)
  then show ?thesis
    unfolding scan_paren_def
    by (auto simp: nth0_append_right literal_skip_append Ok x)
next
  case (Fatal e)
  then show ?thesis
    unfolding scan_paren_def by (auto simp: nth0_append_right literal_skip_append)
next
  case (Crash c)
  then show ?thesis
    unfolding scan_paren_def by (auto simp: nth0_append_right literal_skip_append)
qed

lemma scan_step_append:
  "scan_step (a @ s) (length a + k) cnt grp =
     map_result (\<lambda>(b, c, n, g). (a @ b, length a + c, n, g)) (scan_step s k cnt grp)"
proof (cases "scan_paren s k cnt")
  case (Ok x)
  obtain chk2 cnt2 where x: "x = (chk2, cnt2)" by (cases x)
  have p: "scan_paren (a @ s) (length a + k) cnt = Ok (length a + chk2, cnt2)"
    by (simp add: scan_paren_append Ok x)
  have d: "drop (length a + chk2 + 1 + 1) (a @ s[chk2 + 1 := NUL]) = drop (chk2 + 1 + 1) (s[chk2 + 1 := NUL])"
    "drop (length a + chk2 + 1 + 1) (a @ s) = drop (chk2 + 1 + 1) s"
    by simp_all
  show ?thesis
    unfolding scan_step_def p
    using d by (simp add: Ok x Let_def nth_append list_update_append add.assoc)
next
  case (Fatal e)
  then show ?thesis by (simp add: scan_step_def scan_paren_append)
next
  case (Crash c)
  then show ?thesis by (simp add: scan_step_def scan_paren_append)
qed

lemma scan_loop_append:
  "scan_loop (a @ s) (length a + k) cnt grp =
     map_result (\<lambda>(b, n, g). (a @ b, n, g)) (scan_loop s k cnt grp)"
proof (induction s k cnt grp rule: scan_loop.induct)
  case (1 inp chk cnt grp)
  show ?case
  proof (cases "scan_step inp chk cnt grp")
    case (Ok x)
    obtain inp' chk' cnt' grp' where x: "x = (inp', chk', cnt', grp')" by (cases x)
    have st: "scan_step (a @ inp) (length a + chk) cnt grp = Ok (a @ inp', length a + chk', cnt', grp')"
      by (simp add: scan_step_append Ok x)
    show ?thesis
    proof (cases "chk' < length inp'")
      case True
      from "1.IH" [OF Ok x [symmetric] refl refl True]
      have "scan_loop (a @ inp') (length a + chk') cnt' grp' =
            map_result (\<lambda>(b, n, g). (a @ b, n, g)) (scan_loop inp' chk' cnt' grp')" .
      then show ?thesis
        by (subst scan_loop.simps, subst (2) scan_loop.simps) (simp add: st Ok x True)
    next
      case False
      then show ?thesis
        by (subst scan_loop.simps, subst (2) scan_loop.simps) (simp add: st Ok x)
    qed
  next
    case (Fatal e)
    then show ?thesis
      by (subst scan_loop.simps, subst (2) scan_loop.simps) (simp add: scan_step_append)
  next
    case (Crash c)
    then show ?thesis
      by (subst scan_loop.simps, subst (2) scan_loop.simps) (simp add: scan_step_append)
  qed
qed

lemma takeWhile_digits_colon:
  "\<forall>d \<in> set ds. isdigit d \<Longrightarrow> takeWhile isdigit (ds @ CHR '':'' # xs) = ds"
  by (induction ds) (auto simp: isdigit_def)

lemma literal_skip_block:
  assumes ds: "ds \<noteq> []" "\<forall>d \<in> set ds. isdigit d"
    and N: "atoi_digits ds = int N" "N < 2147483647"
  shows "literal_skip (CHR ''('' # CHR '' '' # ds @ CHR '':'' # xs) 0 =
         Ok (2 + length ds, int N + 1)"
proof -
  let ?inp = "CHR ''('' # CHR '' '' # ds @ CHR '':'' # xs"
  from ds obtain d ds' where dd: "ds = d # ds'" "isdigit d" by (cases ds) auto
  have 1: "nth0 ?inp (0 + 1) = CHR '' ''" by (simp add: nth0_def)
  have 2: "isdigit (nth0 ?inp (0 + 1 + 1))" using dd by (simp add: nth0_def)
  have 3: "0 + 1 + 2 < length ?inp" using dd by simp
  have 4: "takeWhile isdigit (drop (0 + 1 + 1) ?inp) = ds"
    using takeWhile_digits_colon [OF ds(2)] by simp
  have 5: "nth0 ?inp (0 + 1 + 1 + length ds) = CHR '':''"
    by (simp add: nth0_def nth_append)
  have 6: "0 + 1 + 1 + length ds < length ?inp" by simp
  show ?thesis
    unfolding literal_skip_def Let_def
    by (simp only: 1 2 3 4 5 6 N if_True simp_thms) (use N in simp)
qed

lemma scan_paren_block:
  assumes ds: "ds \<noteq> []" "\<forall>d \<in> set ds. isdigit d"
    and N: "atoi_digits ds = int N" "N < 2147483647" and v: "length v = N"
  shows "scan_paren (CHR ''('' # CHR '' '' # ds @ CHR '':'' # v @ c # rest) 0 cnt =
         Ok (3 + length ds + N, cnt + 1)"
proof -
  have "nat (int (2 + length ds) + (int N + 1)) = 3 + length ds + N" by simp
  then show ?thesis
    unfolding scan_paren_def literal_skip_block [OF ds N]
    using v by (simp add: nth0_def)
qed

lemma scan_loop_append0:
  "scan_loop (a @ s) (length a) cnt grp =
     map_result (\<lambda>(b, n, g). (a @ b, n, g)) (scan_loop s 0 cnt grp)"
  using scan_loop_append [of a s 0 cnt grp] by simp

lemma scan_loop_block:
  assumes ds: "ds \<noteq> []" "\<forall>d \<in> set ds. isdigit d"
    and N: "atoi_digits ds = int N" "N < 2147483647"
  shows "\<exists>r. \<forall>v. length v = N \<longrightarrow>
           scan_loop (CHR ''('' # CHR '' '' # ds @ CHR '':'' # v @ c # rest) 0 cnt grp =
           map_result (\<lambda>(b, n, g). (CHR ''('' # CHR '' '' # ds @ CHR '':'' # v @ c # b, n, g)) r"
proof -
  define L where "L = (\<lambda>v. CHR ''('' # CHR '' '' # ds @ CHR '':'' # v @ [c])"
  have inp: "\<And>v xs. CHR ''('' # CHR '' '' # ds @ CHR '':'' # v @ c # xs = L v @ xs"
    by (simp add: L_def)
  have len: "\<And>v. length v = N \<Longrightarrow> length (L v) = 4 + length ds + N"
    by (simp add: L_def)
  have par: "\<And>v. length v = N \<Longrightarrow> scan_paren (L v @ rest) 0 cnt = Ok (3 + length ds + N, cnt + 1)"
    using scan_paren_block [OF ds N] by (simp add: L_def)
  show ?thesis
  proof (cases "cnt + 1 = 0")
    case False
    have st: "\<And>v. length v = N \<Longrightarrow>
        scan_step (L v @ rest) 0 cnt grp = Ok (L v @ rest, length (L v) + 0, cnt + 1, grp)"
      unfolding scan_step_def using False by (simp add: par len)
    show ?thesis
    proof (cases "rest = []")
      case True
      have st': "\<And>v. length v = N \<Longrightarrow>
          scan_step (L v) 0 cnt grp = Ok (L v, length (L v), cnt + 1, grp)"
        using st True by simp
      have "\<And>v. length v = N \<Longrightarrow> scan_loop (L v @ rest) 0 cnt grp =
              map_result (\<lambda>(b, n, g). (L v @ b, n, g)) (Ok ([], cnt + 1, grp))"
        by (subst scan_loop.simps) (simp add: st' True)
      then show ?thesis unfolding inp by blast
    next
      case ne: False
      have "\<And>v. length v = N \<Longrightarrow> scan_loop (L v @ rest) 0 cnt grp =
              map_result (\<lambda>(b, n, g). (L v @ b, n, g)) (scan_loop rest 0 (cnt + 1) grp)"
        by (subst scan_loop.simps) (simp add: st ne scan_loop_append0 del: append.simps)
      then show ?thesis unfolding inp by blast
    qed
  next
    case True
    show ?thesis
    proof (cases rest)
      case Nil
      have st': "\<And>v. length v = N \<Longrightarrow>
          scan_step (L v) 0 cnt grp = Ok (L v, length (L v) + 1, 0, grp + 1)"
      proof -
        fix v :: string assume v: "length v = N"
        from par [OF v] Nil have "scan_paren (L v) 0 cnt = Ok (3 + length ds + N, cnt + 1)" by simp
        then show "scan_step (L v) 0 cnt grp = Ok (L v, length (L v) + 1, 0, grp + 1)"
          unfolding scan_step_def using True by (simp add: len [OF v])
      qed
      have "\<And>v. length v = N \<Longrightarrow> scan_loop (L v @ rest) 0 cnt grp =
              map_result (\<lambda>(b, n, g). (L v @ b, n, g)) (Ok ([], 0, grp + 1))"
        by (subst scan_loop.simps) (simp add: st' Nil)
      then show ?thesis unfolding inp by blast
    next
      case (Cons x xs)
      define rest' where "rest' = (if x = CHR '' '' then NUL # xs else rest)"
      define j where "j = 1 + length (takeWhile (\<lambda>x. x \<noteq> CHR ''('') (drop 1 rest'))"
      have lr: "length rest' = length rest" by (simp add: rest'_def Cons)
      have st: "\<And>v. length v = N \<Longrightarrow>
          scan_step (L v @ rest) 0 cnt grp = Ok (L v @ rest', length (L v) + j, 0, grp + 1)"
      proof -
        fix v :: string assume v: "length v = N"
        have a: "(L v @ rest) ! (3 + length ds + N + 1) = x"
          using len [OF v] by (simp add: Cons nth_append)
        have b: "(L v @ rest)[3 + length ds + N + 1 := NUL] = L v @ NUL # xs"
          using len [OF v] by (simp add: Cons list_update_append)
        have c: "drop (3 + length ds + N + 1 + 1) (L v @ NUL # xs) = xs"
          "drop (3 + length ds + N + 1 + 1) (L v @ rest) = xs"
          using len [OF v] by (simp_all add: Cons)
        have d: "3 + length ds + N + 1 < length (L v @ rest)" using len [OF v] by (simp add: Cons)
        show "scan_step (L v @ rest) 0 cnt grp = Ok (L v @ rest', length (L v) + j, 0, grp + 1)"
          unfolding scan_step_def par [OF v]
          using True v
          by (simp only: prod.case result.case if_True Let_def a b c d)
             (simp add: rest'_def j_def Cons len [OF v])
      qed
      show ?thesis
      proof (cases "j < length rest'")
        case jl: True
        have "\<And>v. length v = N \<Longrightarrow> scan_loop (L v @ rest) 0 cnt grp =
              map_result (\<lambda>(b, n, g). (L v @ b, n, g)) (scan_loop rest' j 0 (grp + 1))"
          by (subst scan_loop.simps) (simp add: st jl scan_loop_append del: append.simps)
        then show ?thesis unfolding inp by blast
      next
        case jl: False
        have "\<And>v. length v = N \<Longrightarrow> scan_loop (L v @ rest) 0 cnt grp =
              map_result (\<lambda>(b, n, g). (L v @ b, n, g)) (Ok (rest', 0, grp + 1))"
          by (subst scan_loop.simps) (simp add: st jl del: append.simps)
        then show ?thesis unfolding inp by blast
      qed
    qed
  qed
qed

text \<open>
  C3 (as amended). The scan of one read stands at offset \<open>length pre\<close> on a \<open>(\<close> that opens a
  size-annotated block: a space, decimal digits for \<open>N\<close>, a colon, \<open>N\<close> payload bytes and one
  more byte \<open>c\<close>, all within the bytes of this read. Then the payload bytes and \<open>c\<close> are
  passed over unread and unchanged: for two payloads of the same length the scan gives the
  same paren count and group count and treats the bytes after the block alike (\<open>r\<close>).
\<close>

theorem scan_loop_block_payload:
  "ds \<noteq> [] \<longrightarrow> (\<forall>d \<in> set ds. isdigit d) \<longrightarrow> atoi_digits ds = int (length w) \<longrightarrow>
   length w < 2147483647 \<longrightarrow> length w' = length w \<longrightarrow>
   (\<exists>r. scan_loop (pre @ ''( '' @ ds @ '':'' @ w @ c # rest) (length pre) cnt grp =
          map_result (\<lambda>(b, n, g). (pre @ ''( '' @ ds @ '':'' @ w @ c # b, n, g)) r \<and>
        scan_loop (pre @ ''( '' @ ds @ '':'' @ w' @ c # rest) (length pre) cnt grp =
          map_result (\<lambda>(b, n, g). (pre @ ''( '' @ ds @ '':'' @ w' @ c # b, n, g)) r)"
proof (intro impI)
  assume ds: "ds \<noteq> []" "\<forall>d \<in> set ds. isdigit d"
    and N: "atoi_digits ds = int (length w)" "length w < 2147483647"
    and w': "length w' = length w"
  from scan_loop_block [OF ds N, of c rest cnt grp] obtain r where
    r: "\<And>v. length v = length w \<Longrightarrow>
          scan_loop (CHR ''('' # CHR '' '' # ds @ CHR '':'' # v @ c # rest) 0 cnt grp =
          map_result (\<lambda>(b, n, g). (CHR ''('' # CHR '' '' # ds @ CHR '':'' # v @ c # b, n, g)) r"
    by blast
  have "\<And>v. length v = length w \<Longrightarrow>
          scan_loop (pre @ ''( '' @ ds @ '':'' @ v @ c # rest) (length pre) cnt grp =
          map_result (\<lambda>(b, n, g). (pre @ ''( '' @ ds @ '':'' @ v @ c # b, n, g)) r"
  proof -
    fix v :: string assume v: "length v = length w"
    have "scan_loop (pre @ ''( '' @ ds @ '':'' @ v @ c # rest) (length pre) cnt grp =
          scan_loop (pre @ (CHR ''('' # CHR '' '' # ds @ CHR '':'' # v @ c # rest)) (length pre) cnt grp"
      by simp
    also have "\<dots> = map_result (\<lambda>(b, n, g). (pre @ b, n, g))
                    (scan_loop (CHR ''('' # CHR '' '' # ds @ CHR '':'' # v @ c # rest) 0 cnt grp)"
      by (rule scan_loop_append0)
    also have "\<dots> = map_result (\<lambda>(b, n, g). (pre @ ''( '' @ ds @ '':'' @ v @ c # b, n, g)) r"
      unfolding r [OF v] by (cases r) auto
    finally show "scan_loop (pre @ ''( '' @ ds @ '':'' @ v @ c # rest) (length pre) cnt grp =
          map_result (\<lambda>(b, n, g). (pre @ ''( '' @ ds @ '':'' @ v @ c # b, n, g)) r" .
  qed
  from this [of w] this [of w'] w'
  show "\<exists>r. scan_loop (pre @ ''( '' @ ds @ '':'' @ w @ c # rest) (length pre) cnt grp =
          map_result (\<lambda>(b, n, g). (pre @ ''( '' @ ds @ '':'' @ w @ c # b, n, g)) r \<and>
        scan_loop (pre @ ''( '' @ ds @ '':'' @ w' @ c # rest) (length pre) cnt grp =
          map_result (\<lambda>(b, n, g). (pre @ ''( '' @ ds @ '':'' @ w' @ c # b, n, g)) r"
    by blast
qed

theorem scan_loop_block_payload_witness:
  "\<exists>r. scan_loop (''( success ( '' @ ''( '' @ ''9'' @ '':'' @ ''a ) ) ) b'' @ CHR '' '' # '') ) ) '')
          (length ''( success ( '') 2 0 =
        map_result (\<lambda>(b, n, g). (''( success ( '' @ ''( '' @ ''9'' @ '':'' @ ''a ) ) ) b'' @ CHR '' '' # b, n, g)) r \<and>
       scan_loop (''( success ( '' @ ''( '' @ ''9'' @ '':'' @ ''no parens'' @ CHR '' '' # '') ) ) '')
          (length ''( success ( '') 2 0 =
        map_result (\<lambda>(b, n, g). (''( success ( '' @ ''( '' @ ''9'' @ '':'' @ ''no parens'' @ CHR '' '' # b, n, g)) r"
proof -
  have 1: "''9'' \<noteq> []" by simp
  have 2: "\<forall>d \<in> set ''9''. isdigit d" by (simp add: isdigit_def)
  have 3: "atoi_digits ''9'' = int (length ''a ) ) ) b'')"
    by (simp add: atoi_digits_def digit_val_def)
  have 4: "length ''a ) ) ) b'' < 2147483647" by simp
  have 5: "length ''no parens'' = length ''a ) ) ) b''" by simp
  from scan_loop_block_payload
    [THEN mp, OF 1, THEN mp, OF 2, THEN mp, OF 3, THEN mp, OF 4, THEN mp, OF 5]
  show ?thesis .
qed

text \<open>
  C3 as stated fails when the block does not end inside the read. The reply is one group
  whose block of 9 bytes is the commit message \<open>a ) ) ) b\<close>. Delivered in one read, the
  group ends where it should. Delivered in two reads, the first ending inside the block,
  nothing is skipped: the parentheses of the message are counted, the group is taken to
  end inside the message, and the procedure returns with the second read not consumed.
\<close>

theorem process_command_svn_split_block_counterexample:
  "process_command_svn 0 1 [Data ''( success ( ( 9:a ) ) ) b ) ) ) ''] =
     (Some (Ok (''( success ( ( 9:a ) ) ) b ) ) )'' @ [NUL])), 1, []) \<and>
   process_command_svn 0 1 [Data ''( success ( ( 9:a ) ) )'', Data '' b ) ) ) ''] =
     (Some (Ok ''( success ( ( 9:a ) ) )''), 1, [Data '' b ) ) ) ''])"
  by code_simp

section \<open>The HTTP response assembler: process_command_http\<close>

definition CR :: char where
  "CR = CHR 0x0D"

definition CRLF :: string where
  "CRLF = [CR, LF]"

text \<open>\<open>strstr\<close> on C strings: the offset of the first occurrence, \<open>None\<close> for the null pointer.\<close>

fun strstr :: "string \<Rightarrow> string \<Rightarrow> nat option" where
  "strstr [] needle = (if needle = [] then Some 0 else None)"
| "strstr (x # xs) needle =
     (if take (length needle) (x # xs) = needle then Some 0
      else map_option Suc (strstr xs needle))"

text \<open>
  \<open>strtol\<close> in base 10 or 16: white space, an optional sign, for base 16 an optional \<open>0x\<close>,
  then the digits. The callers store the \<open>long\<close> in an \<open>int\<close>; a value that does not fit is
  not modelled (\<open>Crash\<close>).
\<close>

definition isspace :: "char \<Rightarrow> bool" where
  "isspace c = (c \<in> set [CHR '' '', CHR 0x09, CHR 0x0A, CHR 0x0B, CHR 0x0C, CHR 0x0D])"

definition xdigit_val :: "char \<Rightarrow> int" where
  "xdigit_val c =
     (if isdigit c then of_char c - 48
      else if c \<in> set ''abcdef'' then of_char c - 87
      else of_char c - 55)"

definition strtol :: "nat \<Rightarrow> string \<Rightarrow> int result" where
  "strtol base s =
     (let s1 = dropWhile isspace s;
          neg = (s1 \<noteq> [] \<and> hd s1 = CHR ''-'');
          s2 = (if s1 \<noteq> [] \<and> (hd s1 = CHR ''-'' \<or> hd s1 = CHR ''+'') then tl s1 else s1);
          s3 = (if base = 16 \<and> (take 2 s2 = ''0x'' \<or> take 2 s2 = ''0X'') \<and>
                   2 < length s2 \<and> isxdigit (s2 ! 2)
                then drop 2 s2 else s2);
          ds = takeWhile (if base = 16 then isxdigit else isdigit) s3;
          v = foldl (\<lambda>a c. int base * a + xdigit_val c) 0 ds
      in if 2147483647 < v then Crash IntOverflow else Ok (if neg then - v else v))"

text \<open>The digits \<^verbatim>\<open>%x\<close> prints for a number.\<close>

fun hex_of_nat :: "nat \<Rightarrow> string" where
  "hex_of_nat n =
     (if n < 16 then [''0123456789abcdef'' ! n]
      else hex_of_nat (n div 16) @ [''0123456789abcdef'' ! (n mod 16)])"

declare hex_of_nat.simps [simp del]

text \<open>
  The variables of the procedure. \<open>h_response\<close> is \<open>connection->response\<close> up to
  \<open>response_length\<close> (the byte after it is always NUL); \<open>h_marker2\<close> is \<open>marker2\<close> as an offset
  into it.
\<close>

record http_state =
  h_response :: string
  h_offset :: nat
  h_chunk :: int
  h_groups :: nat
  h_chunked_transfer :: int
  h_first_chunk :: bool
  h_read_more :: bool
  h_marker2 :: nat
  h_inline_props :: bool

text \<open>
  The inner loop:
  \<^verbatim>\<open>
  while ((chunked_transfer == 1) && ((end = strstr(marker2, "\r\n")) != NULL)) {
      chunk = strtol(marker2, (char **)NULL, 16);
      marker2 -= 2;
      if (chunk < 0)
          errx(EXIT_FAILURE, "process_command_http: Bad stream data ");
      snprintf(hex_chunk, sizeof(hex_chunk), "\r\n%x\r\n", chunk);
      gap = strlen(hex_chunk);
      if (marker2 + chunk + gap > connection->response + connection->response_length) {
          marker2 += 2;
          read_more = 1;
          break;
      }
      if (first_chunk) {
          first_chunk = 0;
          chunk += gap;
      }
      else {
          /* Remove the chunk from the buffer. */
          memmove(marker2, marker2 + gap,
                  connection->response_length - (marker2 - connection->response));
          connection->response_length -= gap;
      }
      /* Move the offset to the end of the chunk. */
      offset += chunk;
      marker2 += chunk + 2;
      if (chunk == 0) {
          chunked_transfer = -1;
          groups++;
      }
  }
  \<close>
\<close>

lemma strstr_Some_nonempty: "strstr s needle = Some i \<Longrightarrow> needle \<noteq> [] \<Longrightarrow> s \<noteq> []"
  by (cases s) auto

function http_chunks :: "http_state \<Rightarrow> http_state result" where
  "http_chunks s =
     (if h_chunked_transfer s \<noteq> 1 then Ok s
      else
        (case strstr (cstr (drop (h_marker2 s) (h_response s))) CRLF of
           None \<Rightarrow> Ok s
         | Some e \<Rightarrow>
             (case strtol 16 (cstr (drop (h_marker2 s) (h_response s))) of
                Fatal m \<Rightarrow> Fatal m
              | Crash c \<Rightarrow> Crash c
              | Ok chunk \<Rightarrow>
                  if h_marker2 s < 2 then Crash OutOfBounds
                  else if chunk < 0 then Fatal ''process_command_http: Bad stream data ''
                  else
                    (let m2 = h_marker2 s - 2;
                         gap = 4 + length (hex_of_nat (nat chunk))
                     in if length (h_response s) < m2 + nat chunk + gap then
                          Ok (s\<lparr>h_chunk := chunk, h_read_more := True\<rparr>)
                        else
                          (let chunk' = (if h_first_chunk s then chunk + int gap else chunk);
                               resp' = (if h_first_chunk s then h_response s
                                        else take m2 (h_response s) @ drop (m2 + gap) (h_response s));
                               s' = s\<lparr>h_response := resp', h_first_chunk := False,
                                      h_chunk := chunk', h_offset := h_offset s + nat chunk',
                                      h_marker2 := m2 + nat chunk' + 2\<rparr>
                           in if chunk' = 0 then
                                Ok (s'\<lparr>h_chunked_transfer := - 1, h_groups := h_groups s + 1\<rparr>)
                              else http_chunks s')))))"
  by pat_completeness auto
termination
proof (relation "measure (\<lambda>s. length (h_response s) - h_marker2 s)")
  show "wf (measure (\<lambda>s. length (h_response s) - h_marker2 s))" by simp
next
  fix s :: http_state and e chunk m2 gap chunk' resp' s'
  assume found: "strstr (cstr (drop (h_marker2 s) (h_response s))) CRLF = Some e"
    and m: "\<not> h_marker2 s < 2" and nonneg: "\<not> chunk < 0"
    and defs: "m2 = h_marker2 s - 2" "gap = 4 + length (hex_of_nat (nat chunk))"
      "\<not> length (h_response s) < m2 + nat chunk + gap"
      "chunk' = (if h_first_chunk s then chunk + int gap else chunk)"
      "resp' = (if h_first_chunk s then h_response s
                else take m2 (h_response s) @ drop (m2 + gap) (h_response s))"
      "s' = s\<lparr>h_response := resp', h_first_chunk := False, h_chunk := chunk',
               h_offset := h_offset s + nat chunk', h_marker2 := m2 + nat chunk' + 2\<rparr>"
      "chunk' \<noteq> 0"
  from strstr_Some_nonempty [OF found] have "cstr (drop (h_marker2 s) (h_response s)) \<noteq> []"
    by (simp add: CRLF_def)
  then have lt: "h_marker2 s < length (h_response s)"
    by (cases "h_marker2 s < length (h_response s)") (auto simp: cstr_def)
  have up: "h_marker2 s < h_marker2 s'"
    using defs m nonneg by (auto split: if_splits)
  have down: "length (h_response s') \<le> length (h_response s)"
    using defs by (auto split: if_splits)
  from lt up down
  show "(s', s) \<in> measure (\<lambda>s. length (h_response s) - h_marker2 s)"
    by simp
qed

declare http_chunks.simps [simp del]

text \<open>
  The block that reads the status line and the headers of the next response:
  \<^verbatim>\<open>
  if (chunked_transfer == -1) {
      begin = connection->response + offset;
      if ((begin = strstr(begin, "HTTP/1.1 ")) == NULL) { read_more = 1; continue; }
      if ((end = strstr(begin, "\r\n\r\n")) == NULL) { read_more = 1; continue; }
      if(strstr(begin, "DAV: http://subversion.tigris.org/xmlns/dav/svn/inline-props"))
          connection->inline_props = 1;
      end += 4;
      offset += (end - begin);
      groups++;
      marker1 = strstr(begin, "Content-Length: ");
      marker2 = strstr(begin, "Transfer-Encoding: chunked");
      if (marker1) chunked_transfer = 0;
      if (marker2) chunked_transfer = 1;
      if ((marker1) && (marker2))
          chunked_transfer = (marker1 < marker2) ? 0 : 1;
      if (chunked_transfer == 0) {
          chunk = strtol(marker1 + 16, (char **)NULL, 10);
          if (chunk < 0)
              errx(EXIT_FAILURE, "process_command_http: Bad stream data");
          offset += chunk;
          if (connection->response_length > offset) {
              chunked_transfer = -1;
              groups++;
          }
      }
      if (chunked_transfer == 1) {
          chunk = 0;
          marker2 = end;
      }
  }
  \<close>
  The result is \<open>None\<close> for the two \<open>continue\<close>s. \<open>marker2\<close> is only read while
  \<open>chunked_transfer\<close> is 1, so the model sets it only there.
\<close>

definition http_header :: "http_state \<Rightarrow> http_state result option" where
  "http_header s =
     (let resp = h_response s in
      if length resp < h_offset s then Some (Crash OutOfBounds)
      else
        (case strstr (cstr (drop (h_offset s) resp)) ''HTTP/1.1 '' of
           None \<Rightarrow> None
         | Some i \<Rightarrow>
             (let b = h_offset s + i; hay = cstr (drop b resp) in
              case strstr hay (CRLF @ CRLF) of
                None \<Rightarrow> None
              | Some j \<Rightarrow>
                  (let e4 = b + j + 4;
                       s1 = s\<lparr>h_inline_props :=
                                (h_inline_props s \<or>
                                 strstr hay ''DAV: http://subversion.tigris.org/xmlns/dav/svn/inline-props'' \<noteq> None),
                              h_offset := h_offset s + (e4 - b),
                              h_groups := h_groups s + 1\<rparr>;
                       chunked = Some (Ok (s1\<lparr>h_chunked_transfer := 1, h_chunk := 0, h_marker2 := e4\<rparr>))
                   in case strstr hay ''Content-Length: '' of
                        None \<Rightarrow>
                          (case strstr hay ''Transfer-Encoding: chunked'' of
                             None \<Rightarrow> Some (Ok s1)
                           | Some c \<Rightarrow> chunked)
                      | Some a \<Rightarrow>
                          if (case strstr hay ''Transfer-Encoding: chunked'' of
                                None \<Rightarrow> False | Some c \<Rightarrow> \<not> a < c)
                          then chunked
                          else
                            (case strtol 10 (cstr (drop (b + a + 16) resp)) of
                               Fatal m \<Rightarrow> Some (Fatal m)
                             | Crash c \<Rightarrow> Some (Crash c)
                             | Ok chunk \<Rightarrow>
                                 if chunk < 0 then
                                   Some (Fatal ''process_command_http: Bad stream data'')
                                 else if h_offset s1 + nat chunk < length resp then
                                   Some (Ok (s1\<lparr>h_chunk := chunk,
                                               h_offset := h_offset s1 + nat chunk,
                                               h_chunked_transfer := - 1,
                                               h_groups := h_groups s1 + 1\<rparr>))
                                 else
                                   Some (Ok (s1\<lparr>h_chunk := chunk,
                                               h_offset := h_offset s1 + nat chunk,
                                               h_chunked_transfer := 0\<rparr>)))))))"

text \<open>
  What a call of \<open>read\<close> (or \<open>SSL_read\<close>) gives here: bytes (at least one); a negative result
  with \<open>errno\<close> \<open>EINTR\<close> or 0; a negative result with another \<open>errno\<close>; 0 (the peer closed).
\<close>

datatype http_read = HData string | HInterrupted | HFailed | HClosed

datatype http_step =
    Done "string result" nat bool
  | Again nat nat http_state "http_read list"
  | Blocked

definition http_init :: "bool \<Rightarrow> http_state" where
  "http_init inline_props =
     \<lparr> h_response = [], h_offset = 0, h_chunk = 0, h_groups = 0, h_chunked_transfer = - 1,
       h_first_chunk = True, h_read_more = False, h_marker2 = 0, h_inline_props = inline_props \<rparr>"

text \<open>
  After the loop:
  \<^verbatim>\<open>
  if(!strstr(connection->response, "HTTP/1.1 "))
      errx(EXIT_FAILURE, "unexpected response from HTTP server:\n%s", connection->response);
  return (connection->response);
  \<close>
\<close>

definition http_finish :: "http_state \<Rightarrow> string result" where
  "http_finish s =
     (if strstr (cstr (h_response s)) ''HTTP/1.1 '' = None
      then Fatal (''unexpected response from HTTP server:'' @ [LF] @ cstr (h_response s))
      else Ok (h_response s))"

text \<open>
  One turn of \<^verbatim>\<open>while (groups < connection->response_groups)\<close>, from its test to the end of
  its body (or to a \<open>continue\<close>, a \<open>break\<close>, or the \<open>goto retry\<close>, which starts the procedure
  again with \<open>try\<close> kept):
  \<^verbatim>\<open>
  spread = connection->response_length - offset;
  if (spread <= 0)
      read_more = 1;
  if ((chunked_transfer == 1) && (spread <= 5))
      read_more = 1;
  if ((chunked_transfer == 0) && (spread == 0) && (connection->response_groups - groups == 1))
      break;
  if (read_more) {
      bytes_read = read(...);
      ... (the response buffer grows)
      if (bytes_read < 0) {
          if ((errno == EINTR) || (errno == 0))
              continue;
      check_tries_and_retry:;
          if (++try > 5)
              errx(EXIT_FAILURE, "Error in http stream.  Quitting.");
          if (try > 1)
              fprintf(stderr, "Error in http stream, retry #%d\n", try);
          goto retry;
      }
      if (bytes_read == 0) {
          if(connection->response_length == 0) goto check_tries_and_retry;
          break;
      }
      memcpy(connection->response + connection->response_length, input, bytes_read + 1);
      connection->response_length += bytes_read;
      connection->response[connection->response_length] = '\0';
      read_more = 0;
      spread = connection->response_length - offset;
  }
  if ((chunked_transfer == 0) && (spread >= 0)) {
      chunked_transfer = -1;
      groups++;
  }
  ... (the header block, the inner loop)
  \<close>
\<close>

definition http_body :: "nat \<Rightarrow> nat \<Rightarrow> http_state \<Rightarrow> http_read list \<Rightarrow> http_step" where
  "http_body tries sends s events =
     (let spread = int (length (h_response s)) - int (h_offset s);
          s2 = (if h_chunked_transfer s = 0 \<and> 0 \<le> spread
                then s\<lparr>h_chunked_transfer := - 1, h_groups := h_groups s + 1\<rparr> else s)
      in case (if h_chunked_transfer s2 = - 1 then http_header s2 else Some (Ok s2)) of
           None \<Rightarrow> Again tries sends (s2\<lparr>h_read_more := True\<rparr>) events
         | Some (Fatal m) \<Rightarrow> Done (Fatal m) sends (h_inline_props s2)
         | Some (Crash c) \<Rightarrow> Done (Crash c) sends (h_inline_props s2)
         | Some (Ok s3) \<Rightarrow>
             (case http_chunks s3 of
                Fatal m \<Rightarrow> Done (Fatal m) sends (h_inline_props s3)
              | Crash c \<Rightarrow> Done (Crash c) sends (h_inline_props s3)
              | Ok s4 \<Rightarrow> Again tries sends s4 events))"

definition http_retry :: "nat \<Rightarrow> nat \<Rightarrow> http_state \<Rightarrow> http_read list \<Rightarrow> http_step" where
  "http_retry tries sends s events =
     (if tries + 1 > 5 then Done (Fatal ''Error in http stream.  Quitting.'') sends (h_inline_props s)
      else Again (tries + 1) (sends + 1) (http_init (h_inline_props s)) events)"

definition http_iteration :: "nat \<Rightarrow> nat \<Rightarrow> nat \<Rightarrow> http_state \<Rightarrow> http_read list \<Rightarrow> http_step" where
  "http_iteration response_groups tries sends s events =
     (if \<not> h_groups s < response_groups then Done (http_finish s) sends (h_inline_props s)
      else
        (let spread = int (length (h_response s)) - int (h_offset s);
             s1 = (if spread \<le> 0 \<or> (h_chunked_transfer s = 1 \<and> spread \<le> 5)
                   then s\<lparr>h_read_more := True\<rparr> else s)
         in if h_chunked_transfer s = 0 \<and> spread = 0 \<and> response_groups - h_groups s = 1
            then Done (http_finish s1) sends (h_inline_props s1)
            else if h_read_more s1 then
              (case events of
                 [] \<Rightarrow> Blocked
               | HInterrupted # es \<Rightarrow> Again tries sends s1 es
               | HFailed # es \<Rightarrow> http_retry tries sends s1 es
               | HClosed # es \<Rightarrow>
                   if h_response s1 = [] then http_retry tries sends s1 es
                   else Done (http_finish s1) sends (h_inline_props s1)
               | HData d # es \<Rightarrow>
                   http_body tries sends
                     (s1\<lparr>h_response := h_response s1 @ d, h_read_more := False\<rparr>) es)
            else http_body tries sends s1 events))"

text \<open>
  The procedure. \<open>None\<close>: it does not return (a \<open>read\<close> that never returns, or the loop
  turning without reading). Otherwise the outcome, the number of calls of \<open>send_command\<close>,
  and \<open>connection->inline_props\<close>.
\<close>

partial_function (option) http_loop ::
  "nat \<Rightarrow> nat \<Rightarrow> nat \<Rightarrow> http_state \<Rightarrow> http_read list \<Rightarrow> (string result \<times> nat \<times> bool) option" where
  "http_loop response_groups tries sends s events =
     (case http_iteration response_groups tries sends s events of
        Done r n ip \<Rightarrow> Some (r, n, ip)
      | Blocked \<Rightarrow> None
      | Again tries' sends' s' events' \<Rightarrow> http_loop response_groups tries' sends' s' events')"

declare http_loop.simps [code]

definition process_command_http ::
  "nat \<Rightarrow> bool \<Rightarrow> http_read list \<Rightarrow> (string result \<times> nat \<times> bool) option" where
  "process_command_http response_groups inline_props events =
     http_loop response_groups 0 1 (http_init inline_props) events"

subsection \<open>Facts about the string functions\<close>














subsection \<open>The inner loop on well-formed chunks\<close>








subsection \<open>The headers of a chunked response\<close>





end
